theory Spec2Isabelle
  imports Complex_Main "HOL-Library.Multiset" "HOL-Library.List_Lexorder" "HOL-Library.Char_ord"
begin

section \<open>Data model of the notebook\<close>

text \<open>
  The notebook \<^verbatim>\<open>google-product-manager.ipynb\<close> keeps its state in two lists of
  dictionaries, \<^verbatim>\<open>issues\<close> and \<^verbatim>\<open>clusters\<close>. A dictionary key that is only written
  by a later cell (\<^verbatim>\<open>'prediction'\<close>, \<^verbatim>\<open>'vote_score'\<close>, \<^verbatim>\<open>'issue_score'\<close>, \<^verbatim>\<open>'score'\<close>)
  is an optional field: \<open>None\<close> is the absent key. Python's integers are \<open>int\<close>.
  A stored score is a rational number, as every float is. The arithmetic of cell 19 is
  modelled without rounding; the ranking is stated over the stored scores, whatever
  produced them.
\<close>

datatype error = KeyError | IndexError | ZeroDivisionError | ValueError

text \<open>
  An issue as cell 9 appends it:
  \<^verbatim>\<open>{'id': issue_id, 'votes': issue_votes, 'dirty_dsecription': ..., 'description': ...}\<close>.
  The fields carry the names of the variables the cell fills them from.
\<close>

record issue =
  issue_id :: int
  issue_votes :: int
  issue_dirty_description :: string
  issue_description :: string
  prediction :: "int option"

text \<open>
  A cluster as cell 11 appends it:
  \<^verbatim>\<open>{'index': i, 'features': [...], 'votes': 0, 'issues': 0}\<close>, with the three
  scores that cell 19 adds.
\<close>

record cluster =
  index :: int
  features :: "string list"
  votes :: int
  issues :: int
  vote_score :: "rat option"
  issue_score :: "rat option"
  score :: "rat option"

section \<open>Python primitives\<close>

text \<open>\<^verbatim>\<open>min(xs)\<close> and \<^verbatim>\<open>max(xs)\<close> raise ValueError on an empty list.\<close>

fun py_min :: "int list \<Rightarrow> error + int" where
  "py_min [] = Inl ValueError"
| "py_min (x # xs) = Inr (fold min xs x)"

fun py_max :: "int list \<Rightarrow> error + int" where
  "py_max [] = Inl ValueError"
| "py_max (x # xs) = Inr (fold max xs x)"

text \<open>\<^verbatim>\<open>a / b\<close> on two integers is true division and raises ZeroDivisionError.\<close>

definition py_truediv :: "int \<Rightarrow> int \<Rightarrow> error + rat" where
  "py_truediv a b = (if b = 0 then Inl ZeroDivisionError else Inr (of_int a / of_int b))"

text \<open>
  \<^verbatim>\<open>xs[i]\<close>: the position a Python list index names. Negative indices count from the
  end; anything else out of range raises IndexError (\<open>None\<close> here).
\<close>

definition py_index :: "nat \<Rightarrow> int \<Rightarrow> nat option" where
  "py_index n i =
     (if 0 \<le> i \<and> i < int n then Some (nat i)
      else if - int n \<le> i \<and> i < 0 then Some (nat (i + int n))
      else None)"

text \<open>\<^verbatim>\<open>xs.index(x)\<close>: the first position holding a value equal to \<open>x\<close>.\<close>

fun list_index :: "'a list \<Rightarrow> 'a \<Rightarrow> nat option" where
  "list_index [] x = None"
| "list_index (y # ys) x = (if y = x then Some 0 else map_option Suc (list_index ys x))"

section \<open>Scoring (cell 19)\<close>

text \<open>
  \<^verbatim>\<open>
  for cluster in clusters:
      cluster['vote_score'] = vote_multiplier * ((cluster['votes'] - min_votes) / (max_votes - min_votes))
      cluster['issue_score'] = issue_multiplier * ((cluster['issues'] - min_issues) / (max_issues - min_issues))
      cluster['score'] = (cluster['vote_score'] + cluster['issue_score']) / 2
  \<close>
  The body of the loop, for one cluster. The vote score is computed first, so a
  zero vote range raises before the issue score is looked at.
\<close>

definition score_cluster :: "rat \<Rightarrow> rat \<Rightarrow> int \<Rightarrow> int \<Rightarrow> int \<Rightarrow> int \<Rightarrow> cluster \<Rightarrow> error + cluster" where
  "score_cluster vote_multiplier issue_multiplier min_votes max_votes min_issues max_issues c =
     (case py_truediv (votes c - min_votes) (max_votes - min_votes) of
        Inl e \<Rightarrow> Inl e
      | Inr v \<Rightarrow>
         (case py_truediv (issues c - min_issues) (max_issues - min_issues) of
            Inl e \<Rightarrow> Inl e
          | Inr i \<Rightarrow>
              Inr (c\<lparr>vote_score := Some (vote_multiplier * v),
                     issue_score := Some (issue_multiplier * i),
                     score := Some ((vote_multiplier * v + issue_multiplier * i) / 2)\<rparr>)))"

text \<open>
  The loop over the clusters. The first exception ends the cell: the model returns the
  error, not the clusters scored so far.
\<close>

fun score_loop :: "(cluster \<Rightarrow> error + cluster) \<Rightarrow> cluster list \<Rightarrow> error + cluster list" where
  "score_loop f [] = Inr []"
| "score_loop f (c # cs) =
     (case f c of
        Inl e \<Rightarrow> Inl e
      | Inr c' \<Rightarrow> (case score_loop f cs of Inl e \<Rightarrow> Inl e | Inr cs' \<Rightarrow> Inr (c' # cs')))"

text \<open>
  The whole cell up to the sort: the four extrema in the order the cell takes them,
  \<^verbatim>\<open>
  min_votes = min([c['votes'] for c in clusters])
  max_votes = max([c['votes'] for c in clusters])
  min_issues = min([c['issues'] for c in clusters])
  max_issues = max([c['issues'] for c in clusters])
  \<close>
  then the loop. The multipliers are the cell's \<^verbatim>\<open>vote_multiplier = 1\<close> and
  \<^verbatim>\<open>issue_multiplier = 1\<close>, taken as arguments.
\<close>

definition scoring :: "rat \<Rightarrow> rat \<Rightarrow> cluster list \<Rightarrow> error + cluster list" where
  "scoring vote_multiplier issue_multiplier clusters =
     (case py_min (map votes clusters) of Inl e \<Rightarrow> Inl e | Inr min_votes \<Rightarrow>
     (case py_max (map votes clusters) of Inl e \<Rightarrow> Inl e | Inr max_votes \<Rightarrow>
     (case py_min (map issues clusters) of Inl e \<Rightarrow> Inl e | Inr min_issues \<Rightarrow>
     (case py_max (map issues clusters) of Inl e \<Rightarrow> Inl e | Inr max_issues \<Rightarrow>
        score_loop (score_cluster vote_multiplier issue_multiplier
                      min_votes max_votes min_issues max_issues) clusters))))"

text \<open>
  The sort that ends the cell:
  \<^verbatim>\<open>clusters_by_score = sorted(clusters, key=lambda k: k['score'], reverse=True)\<close>.
  The key raises KeyError on a cluster without a score. Python's sort is stable, and
  with \<^verbatim>\<open>reverse=True\<close> it reverses the list, sorts it in ascending order and
  reverses the result, so that equal keys keep the order they had in \<^verbatim>\<open>clusters\<close>.
\<close>

definition clusters_by_score :: "cluster list \<Rightarrow> error + cluster list" where
  "clusters_by_score clusters =
     (if \<exists>k \<in> set clusters. score k = None then Inl KeyError
      else Inr (rev (sort_key (\<lambda>k. the (score k)) (rev clusters))))"

section \<open>Cluster labels and the cluster list (cell 11)\<close>

text \<open>
  \<^verbatim>\<open>
  order_centroids = feature_model.cluster_centers_.argsort()[:, ::-1]
  terms = vectorizer.get_feature_names()
  \<close>
  numpy's \<^verbatim>\<open>argsort\<close> is a library routine and a parameter here; each row of the
  centres is argsorted and then reversed.
\<close>

definition order_centroids :: "(rat list \<Rightarrow> nat list) \<Rightarrow> rat list list \<Rightarrow> nat list list" where
  "order_centroids argsort cluster_centers = map (\<lambda>row. rev (argsort row)) cluster_centers"

text \<open>\<^verbatim>\<open>[terms[x] for x in ...]\<close>: an index beyond the vocabulary raises IndexError.\<close>

fun get_terms :: "string list \<Rightarrow> nat list \<Rightarrow> error + string list" where
  "get_terms terms [] = Inr []"
| "get_terms terms (x # xs) =
     (if x < length terms
      then (case get_terms terms xs of Inl e \<Rightarrow> Inl e | Inr ts \<Rightarrow> Inr (terms ! x # ts))
      else Inl IndexError)"

text \<open>\<^verbatim>\<open>[terms[x] for x in order_centroids[i, :10]]\<close>, the \<^verbatim>\<open>'features'\<close> of cluster \<open>i\<close>.\<close>

definition cluster_features ::
  "(rat list \<Rightarrow> nat list) \<Rightarrow> string list \<Rightarrow> rat list list \<Rightarrow> nat \<Rightarrow> error + string list" where
  "cluster_features argsort terms cluster_centers i =
     (if i < length cluster_centers
      then get_terms terms (take 10 (order_centroids argsort cluster_centers ! i))
      else Inl IndexError)"

text \<open>
  \<^verbatim>\<open>
  for i in range(number_of_clusters):
      clusters.append({'index': i, 'features': [...], 'votes': 0, 'issues': 0})
  \<close>
\<close>

fun append_clusters :: "(nat \<Rightarrow> error + string list) \<Rightarrow> nat list \<Rightarrow> error + cluster list" where
  "append_clusters feats [] = Inr []"
| "append_clusters feats (i # rest) =
     (case feats i of
        Inl e \<Rightarrow> Inl e
      | Inr fs \<Rightarrow>
         (case append_clusters feats rest of
            Inl e \<Rightarrow> Inl e
          | Inr cs \<Rightarrow>
              Inr (\<lparr>index = int i, features = fs, votes = 0, issues = 0,
                    vote_score = None, issue_score = None, score = None\<rparr> # cs)))"

definition make_clusters ::
  "(rat list \<Rightarrow> nat list) \<Rightarrow> string list \<Rightarrow> rat list list \<Rightarrow> int \<Rightarrow> error + cluster list" where
  "make_clusters argsort terms cluster_centers number_of_clusters =
     append_clusters (cluster_features argsort terms cluster_centers) [0..<nat number_of_clusters]"

text \<open>
  A stable argsort: the positions of a row ordered by ascending weight, equal
  weights in ascending position. It is one routine that meets numpy's contract for
  \<^verbatim>\<open>argsort\<close>, and the one used below wherever a concrete routine is needed.
\<close>

definition argsort_stable :: "rat list \<Rightarrow> nat list" where
  "argsort_stable row = sort_key (\<lambda>i. row ! i) [0..<length row]"

section \<open>Aggregation (cell 15)\<close>

text \<open>
  \<^verbatim>\<open>
  for cluster in clusters:
      cluster['votes'] = 0
      cluster['issues'] = 0
  \<close>
\<close>

definition reset_clusters :: "cluster list \<Rightarrow> cluster list" where
  "reset_clusters clusters = map (\<lambda>cluster. cluster\<lparr>votes := 0, issues := 0\<rparr>) clusters"

text \<open>
  \<^verbatim>\<open>
  for issue in issues:
      vectorized_description = vectorizer.transform([issue['description']])
      prediction = feature_model.predict(vectorized_description)
      issues[issues.index(issue)]['prediction'] = prediction[0]
      clusters[issue['prediction']]['votes'] += issue['votes']
      clusters[issue['prediction']]['issues'] += 1
  \<close>
  The body of the loop for the issue at position \<open>j\<close>. The fitted vectorizer and the
  trained model are library objects: \<open>predict\<close> stands for
  \<^verbatim>\<open>feature_model.predict(vectorizer.transform([d]))[0]\<close>. The prediction is stored in
  the first issue of the list that is equal to the current one (\<^verbatim>\<open>issues.index\<close>),
  which need not be the current one; the current issue's own \<^verbatim>\<open>'prediction'\<close> key
  is read afterwards, and raises KeyError when absent.
\<close>

fun aggregate_step ::
  "(string \<Rightarrow> int) \<Rightarrow> nat \<Rightarrow> issue list \<times> cluster list \<Rightarrow> error + issue list \<times> cluster list" where
  "aggregate_step predict j (iss, clusters) =
     (case list_index iss (iss ! j) of
        None \<Rightarrow> Inl ValueError
      | Some k \<Rightarrow>
         (let iss' = iss[k := (iss ! k)\<lparr>prediction := Some (predict (issue_description (iss ! j)))\<rparr>];
              issue = iss' ! j
          in (case prediction issue of
                None \<Rightarrow> Inl KeyError
              | Some q \<Rightarrow>
                 (case py_index (length clusters) q of
                    None \<Rightarrow> Inl IndexError
                  | Some c \<Rightarrow>
                     (let clusters' = clusters[c := (clusters ! c)
                             \<lparr>votes := votes (clusters ! c) + issue_votes issue\<rparr>];
                          clusters'' = clusters'[c := (clusters' ! c)
                             \<lparr>issues := issues (clusters' ! c) + 1\<rparr>]
                      in Inr (iss', clusters''))))))"

text \<open>
  The loop visits the positions of \<^verbatim>\<open>issues\<close> in order; the list keeps its length.
  The first exception ends the cell: the model returns the error, not the state reached.
\<close>

fun aggregate_loop ::
  "(string \<Rightarrow> int) \<Rightarrow> nat list \<Rightarrow> issue list \<times> cluster list \<Rightarrow> error + issue list \<times> cluster list" where
  "aggregate_loop predict [] st = Inr st"
| "aggregate_loop predict (j # js) st =
     (case aggregate_step predict j st of
        Inl e \<Rightarrow> Inl e
      | Inr st' \<Rightarrow> aggregate_loop predict js st')"

text \<open>The whole cell: the reset, then the loop over all positions.\<close>

definition aggregate ::
  "(string \<Rightarrow> int) \<Rightarrow> issue list \<Rightarrow> cluster list \<Rightarrow> error + issue list \<times> cluster list" where
  "aggregate predict iss clusters =
     aggregate_loop predict [0..<length iss] (iss, reset_clusters clusters)"

section \<open>Prediction\<close>

text \<open>
  Modelled from the spec: the distance of \<^verbatim>\<open>feature_model.predict\<close>. The notebook calls
  scikit-learn's KMeans, whose code is not in the repository; section 4.2 of the
  specification measures "distance (Euclidean over tf-idf weighted vectors)". The square
  of that distance is computed here: it is smallest at the same centroid, and stays
  rational.
\<close>

definition squared_distance :: "rat list \<Rightarrow> rat list \<Rightarrow> rat" where
  "squared_distance x y = sum_list (map (\<lambda>(a, b). (a - b) * (a - b)) (zip x y))"

text \<open>
  Modelled from the spec: the choice among the centroids, which is part of the same
  missing \<^verbatim>\<open>predict\<close>. Section 4.2: "assign each row to the centroid minimizing
  distance [...], breaking ties by lowest centroid index". The result is the lowest
  position that holds a smallest distance.
\<close>

fun nearest :: "rat list \<Rightarrow> nat" where
  "nearest [] = 0"
| "nearest (d # ds) = (if \<forall>e \<in> set ds. d \<le> e then 0 else Suc (nearest ds))"

text \<open>
  Modelled from the spec: \<^verbatim>\<open>feature_model.predict\<close> itself, missing from the
  repository. Section 4.2: predict "applies only step (a) against the frozen, trained
  centroids", step (a) being the assignment above; the label is the index of the
  centroid. A trained model has at least one centroid.
\<close>

definition kmeans_predict :: "rat list list \<Rightarrow> rat list \<Rightarrow> int" where
  "kmeans_predict centroids row = int (nearest (map (squared_distance row) centroids))"

section \<open>Auxiliary definitions for the statements\<close>

text \<open>What the loop body leaves in a cluster when neither range is zero.\<close>

definition scored :: "rat \<Rightarrow> rat \<Rightarrow> int \<Rightarrow> int \<Rightarrow> int \<Rightarrow> int \<Rightarrow> cluster \<Rightarrow> cluster" where
  "scored vm im mnv mxv mni mxi c =
     c\<lparr>vote_score := Some (vm * (of_int (votes c - mnv) / of_int (mxv - mnv))),
       issue_score := Some (im * (of_int (issues c - mni) / of_int (mxi - mni))),
       score := Some ((vm * (of_int (votes c - mnv) / of_int (mxv - mnv))
                       + im * (of_int (issues c - mni) / of_int (mxi - mni))) / 2)\<rparr>"

text \<open>A score that is present and lies between 0 and 1.\<close>

fun in_unit_interval :: "rat option \<Rightarrow> bool" where
  "in_unit_interval None = False"
| "in_unit_interval (Some x) = (0 \<le> x \<and> x \<le> 1)"

text \<open>
  The order of the ranked output the specification asks for: \<open>a\<close> comes before \<open>b\<close>
  when its score is larger, or when the scores are equal and its index is smaller.
\<close>

definition outranks :: "cluster \<Rightarrow> cluster \<Rightarrow> bool" where
  "outranks a b =
     (case (score a, score b) of
        (Some x, Some y) \<Rightarrow> y < x \<or> (x = y \<and> index a < index b)
      | _ \<Rightarrow> False)"

text \<open>
  The net effect of one round of the aggregation loop on the clusters: the cluster at
  position \<open>c\<close> receives the votes \<open>v\<close> of an issue and counts one more issue.
\<close>

definition bump :: "nat \<Rightarrow> int \<Rightarrow> cluster list \<Rightarrow> cluster list" where
  "bump c v clusters =
     clusters[c := (clusters ! c)\<lparr>votes := votes (clusters ! c) + v,
                                  issues := issues (clusters ! c) + 1\<rparr>]"

text \<open>
  A reference tally: every issue is counted in the cluster that \<open>predict\<close> names for
  its description. The aggregation loop is compared with it below.
\<close>

fun tally :: "(string \<Rightarrow> int) \<Rightarrow> issue list \<Rightarrow> cluster list \<Rightarrow> error + cluster list" where
  "tally predict [] clusters = Inr clusters"
| "tally predict (i # rest) clusters =
     (case py_index (length clusters) (predict (issue_description i)) of
        None \<Rightarrow> Inl IndexError
      | Some c \<Rightarrow> tally predict rest (bump c (issue_votes i) clusters))"

definition predicted :: "(string \<Rightarrow> int) \<Rightarrow> issue \<Rightarrow> issue" where
  "predicted predict i = i\<lparr>prediction := Some (predict (issue_description i))\<rparr>"

text \<open>
  A small run of the notebook used to instantiate the theorems: four issues, a
  vocabulary of three terms, three cluster centres, and a prediction that sends the two
  API requests to cluster 1, the dark-mode request to cluster 0 and anything else to
  cluster 2.
\<close>

definition demo_issues :: "issue list" where
  "demo_issues =
     [\<lparr>issue_id = 101, issue_votes = 5, issue_dirty_description = ''upgrade the api please'',
        issue_description = ''upgrade the api please'', prediction = None\<rparr>,
      \<lparr>issue_id = 102, issue_votes = 3, issue_dirty_description = ''please upgrade api'',
        issue_description = ''please upgrade api'', prediction = None\<rparr>,
      \<lparr>issue_id = 103, issue_votes = 0, issue_dirty_description = ''add a dark mode'',
        issue_description = ''add a dark mode'', prediction = None\<rparr>,
      \<lparr>issue_id = 104, issue_votes = 0, issue_dirty_description = ''export to csv'',
        issue_description = ''export to csv'', prediction = None\<rparr>]"

definition demo_predict :: "string \<Rightarrow> int" where
  "demo_predict d =
     (if d = ''upgrade the api please'' \<or> d = ''please upgrade api'' then 1
      else if d = ''add a dark mode'' then 0
      else 2)"

definition demo_terms :: "string list" where
  "demo_terms = [''api'', ''dark'', ''export'']"

definition demo_centers :: "rat list list" where
  "demo_centers = [[0, 1, 0], [1, 0, 0], [0, 0, 1]]"

definition demo_transform :: "string \<Rightarrow> rat list" where
  "demo_transform d =
     (if d = ''upgrade the api please'' \<or> d = ''please upgrade api'' then [1, 0, 0]
      else if d = ''add a dark mode'' then [0, 1, 0]
      else if d = ''export to csv'' then [0, 0, 1]
      else [0, 0, 0])"

text \<open>The clusters of the small run: as cell 11 builds them, after cell 15, and after cell 19.\<close>

definition demo_clusters :: "cluster list" where
  "demo_clusters =
     [\<lparr>index = 0, features = [''dark'', ''export'', ''api''], votes = 0, issues = 0,
        vote_score = None, issue_score = None, score = None\<rparr>,
      \<lparr>index = 1, features = [''api'', ''export'', ''dark''], votes = 0, issues = 0,
        vote_score = None, issue_score = None, score = None\<rparr>,
      \<lparr>index = 2, features = [''export'', ''dark'', ''api''], votes = 0, issues = 0,
        vote_score = None, issue_score = None, score = None\<rparr>]"

text \<open>The same clusters with counters left over from an earlier pass.\<close>

definition demo_used :: "cluster list" where
  "demo_used =
     [\<lparr>index = 0, features = [''dark'', ''export'', ''api''], votes = 7, issues = 4,
        vote_score = None, issue_score = None, score = None\<rparr>,
      \<lparr>index = 1, features = [''api'', ''export'', ''dark''], votes = 2, issues = 1,
        vote_score = None, issue_score = None, score = None\<rparr>,
      \<lparr>index = 2, features = [''export'', ''dark'', ''api''], votes = 0, issues = 9,
        vote_score = None, issue_score = None, score = None\<rparr>]"

definition demo_aggregated :: "cluster list" where
  "demo_aggregated =
     [\<lparr>index = 0, features = [''dark'', ''export'', ''api''], votes = 0, issues = 1,
        vote_score = None, issue_score = None, score = None\<rparr>,
      \<lparr>index = 1, features = [''api'', ''export'', ''dark''], votes = 8, issues = 2,
        vote_score = None, issue_score = None, score = None\<rparr>,
      \<lparr>index = 2, features = [''export'', ''dark'', ''api''], votes = 0, issues = 1,
        vote_score = None, issue_score = None, score = None\<rparr>]"

definition demo_scored :: "cluster list" where
  "demo_scored =
     [\<lparr>index = 0, features = [''dark'', ''export'', ''api''], votes = 0, issues = 1,
        vote_score = Some 0, issue_score = Some 0, score = Some 0\<rparr>,
      \<lparr>index = 1, features = [''api'', ''export'', ''dark''], votes = 8, issues = 2,
        vote_score = Some 1, issue_score = Some 1, score = Some 1\<rparr>,
      \<lparr>index = 2, features = [''export'', ''dark'', ''api''], votes = 0, issues = 1,
        vote_score = Some 0, issue_score = Some 0, score = Some 0\<rparr>]"

text \<open>
  Four clusters with stored scores, two of them equal: the first two hold the same
  score, the last holds the largest.
\<close>

definition demo_stored :: "cluster list" where
  "demo_stored =
     [\<lparr>index = 0, features = [], votes = 1, issues = 7,
        vote_score = Some (1 / 10), issue_score = Some (7 / 10), score = Some (2 / 5)\<rparr>,
      \<lparr>index = 1, features = [], votes = 4, issues = 4,
        vote_score = Some (2 / 5), issue_score = Some (2 / 5), score = Some (2 / 5)\<rparr>,
      \<lparr>index = 2, features = [], votes = 0, issues = 0,
        vote_score = Some 0, issue_score = Some 0, score = Some 0\<rparr>,
      \<lparr>index = 3, features = [], votes = 10, issues = 10,
        vote_score = Some 1, issue_score = Some 1, score = Some 1\<rparr>]"

text \<open>
  The example of section 8 of the specification: three issues with votes 5, 3 and 0, and
  two clusters.
\<close>

definition example_issues :: "issue list" where
  "example_issues =
     [\<lparr>issue_id = 1, issue_votes = 5, issue_dirty_description = ''upgrade the api please'',
        issue_description = ''upgrade the api please'', prediction = None\<rparr>,
      \<lparr>issue_id = 2, issue_votes = 3, issue_dirty_description = ''please upgrade api'',
        issue_description = ''please upgrade api'', prediction = None\<rparr>,
      \<lparr>issue_id = 3, issue_votes = 0, issue_dirty_description = ''add a dark mode'',
        issue_description = ''add a dark mode'', prediction = None\<rparr>]"

definition example_clusters :: "cluster list" where
  "example_clusters =
     [\<lparr>index = 0, features = [], votes = 0, issues = 0,
        vote_score = None, issue_score = None, score = None\<rparr>,
      \<lparr>index = 1, features = [], votes = 0, issues = 0,
        vote_score = None, issue_score = None, score = None\<rparr>]"


section \<open>Properties of the scoring pass\<close>

lemma py_min_Inr: "py_min xs = Inr m \<Longrightarrow> xs \<noteq> [] \<and> m = Min (set xs)"
  by (cases xs) (simp_all add: Min.set_eq_fold [symmetric] del: Min_insert set_simps)

lemma py_max_Inr: "py_max xs = Inr m \<Longrightarrow> xs \<noteq> [] \<and> m = Max (set xs)"
  by (cases xs) (simp_all add: Max.set_eq_fold [symmetric] del: Max_insert set_simps)

lemma py_min_le: "py_min (map f cs) = Inr m \<Longrightarrow> c \<in> set cs \<Longrightarrow> m \<le> f c"
  by (drule py_min_Inr) simp

lemma py_max_ge: "py_max (map f cs) = Inr m \<Longrightarrow> c \<in> set cs \<Longrightarrow> f c \<le> m"
  by (drule py_max_Inr) simp

lemma py_min_Inl: "py_min xs = Inl e \<Longrightarrow> xs = [] \<and> e = ValueError"
  by (cases xs) simp_all

lemma py_max_Inl: "py_max xs = Inl e \<Longrightarrow> xs = [] \<and> e = ValueError"
  by (cases xs) simp_all

lemma score_loop_total:
  "(\<And>c. c \<in> set cs \<Longrightarrow> f c = Inr (g c)) \<Longrightarrow> score_loop f cs = Inr (map g cs)"
  by (induction cs) auto

lemma score_loop_first_error:
  "cs \<noteq> [] \<Longrightarrow> (\<And>c. c \<in> set cs \<Longrightarrow> f c = Inl e) \<Longrightarrow> score_loop f cs = Inl e"
  by (cases cs) auto

lemma score_cluster_ok:
  "mxv \<noteq> mnv \<Longrightarrow> mxi \<noteq> mni \<Longrightarrow>
   score_cluster vm im mnv mxv mni mxi c = Inr (scored vm im mnv mxv mni mxi c)"
  by (simp add: score_cluster_def py_truediv_def scored_def)

lemma score_cluster_zero_range:
  "mxv = mnv \<or> mxi = mni \<Longrightarrow> score_cluster vm im mnv mxv mni mxi c = Inl ZeroDivisionError"
  by (auto simp: score_cluster_def py_truediv_def)

lemma scoring_ok:
  assumes "py_min (map votes cs) = Inr mnv" "py_max (map votes cs) = Inr mxv"
    "py_min (map issues cs) = Inr mni" "py_max (map issues cs) = Inr mxi"
    "mxv \<noteq> mnv" "mxi \<noteq> mni"
  shows "scoring vm im cs = Inr (map (scored vm im mnv mxv mni mxi) cs)"
  using assms by (simp add: scoring_def score_loop_total score_cluster_ok)

lemma scoring_zero_range:
  assumes "py_min (map votes cs) = Inr mnv" "py_max (map votes cs) = Inr mxv"
    "py_min (map issues cs) = Inr mni" "py_max (map issues cs) = Inr mxi"
    "mxv = mnv \<or> mxi = mni"
  shows "scoring vm im cs = Inl ZeroDivisionError"
proof -
  from assms(1) have "cs \<noteq> []" by (auto dest: py_min_Inr)
  then show ?thesis
    using assms by (simp add: scoring_def score_loop_first_error score_cluster_zero_range)
qed

lemma scoring_empty: "scoring vm im [] = Inl ValueError"
  by (simp add: scoring_def)

lemma unit_fraction:
  fixes x mn mx :: int
  assumes "mn \<le> x" "x \<le> mx" "mn < mx"
  shows "0 \<le> (of_int (x - mn) / of_int (mx - mn) :: rat)"
    and "(of_int (x - mn) / of_int (mx - mn) :: rat) \<le> 1"
  using assms by (simp_all add: divide_le_eq_1)

text \<open>
  Claim C1, as the notebook behaves. The claim promises a score of 0 for a metric whose
  maximum equals its minimum; the cell has no such policy. With two clusters that hold
  no votes at all, the vote range is zero and the scoring pass ends in ZeroDivisionError.
\<close>

theorem scoring_zero_policy_counterexample:
  "py_max (map votes
      [\<lparr>index = 0, features = [], votes = 0, issues = 2,
         vote_score = None, issue_score = None, score = None\<rparr>,
       \<lparr>index = 1, features = [], votes = 0, issues = 1,
         vote_score = None, issue_score = None, score = None\<rparr>])
   = py_min (map votes
      [\<lparr>index = 0, features = [], votes = 0, issues = 2,
         vote_score = None, issue_score = None, score = None\<rparr>,
       \<lparr>index = 1, features = [], votes = 0, issues = 1,
         vote_score = None, issue_score = None, score = None\<rparr>])
   \<and> scoring 1 1
      [\<lparr>index = 0, features = [], votes = 0, issues = 2,
         vote_score = None, issue_score = None, score = None\<rparr>,
       \<lparr>index = 1, features = [], votes = 0, issues = 1,
         vote_score = None, issue_score = None, score = None\<rparr>]
     = Inl ZeroDivisionError"
  by (simp add: scoring_def score_cluster_def py_truediv_def)

text \<open>
  Claim C1, amended: over a non-empty cluster list, when the maximum of a metric
  (votes or issues) equals its minimum, the scoring pass raises ZeroDivisionError and
  returns no scores; when the maximum differs from the minimum for both metrics, it
  completes.
\<close>

theorem scoring_zero_range_raises:
  assumes "py_min (map votes cs) = Inr min_votes" and "py_max (map votes cs) = Inr max_votes"
    and "py_min (map issues cs) = Inr min_issues" and "py_max (map issues cs) = Inr max_issues"
  shows "(max_votes = min_votes \<or> max_issues = min_issues
            \<longrightarrow> scoring vm im cs = Inl ZeroDivisionError)
       \<and> (max_votes \<noteq> min_votes \<and> max_issues \<noteq> min_issues
            \<longrightarrow> (\<exists>cs'. scoring vm im cs = Inr cs'))"
  using scoring_zero_range [OF assms] scoring_ok [OF assms] by blast

theorem scoring_zero_range_raises_witness:
  "py_min (map votes
      [\<lparr>index = 0, features = [], votes = 8, issues = 1,
         vote_score = None, issue_score = None, score = None\<rparr>,
       \<lparr>index = 1, features = [], votes = 0, issues = 1,
         vote_score = None, issue_score = None, score = None\<rparr>]) = Inr 0
   \<and> py_max (map issues
      [\<lparr>index = 0, features = [], votes = 8, issues = 1,
         vote_score = None, issue_score = None, score = None\<rparr>,
       \<lparr>index = 1, features = [], votes = 0, issues = 1,
         vote_score = None, issue_score = None, score = None\<rparr>]) = Inr 1
   \<and> scoring 1 1
      [\<lparr>index = 0, features = [], votes = 8, issues = 1,
         vote_score = None, issue_score = None, score = None\<rparr>,
       \<lparr>index = 1, features = [], votes = 0, issues = 1,
         vote_score = None, issue_score = None, score = None\<rparr>]
     = Inl ZeroDivisionError"
  using scoring_zero_range_raises [of
      "[\<lparr>index = 0, features = [], votes = 8, issues = 1,
         vote_score = None, issue_score = None, score = None\<rparr>,
       \<lparr>index = 1, features = [], votes = 0, issues = 1,
         vote_score = None, issue_score = None, score = None\<rparr>]" 0 8 1 1 1 1]
  by simp

text \<open>
  Claim C2: when the maximum exceeds the minimum for both metrics, the scoring pass
  completes and leaves in every cluster
  \<open>issue_score = issue_multiplier * (issues - min_issues) / (max_issues - min_issues)\<close>,
  \<open>vote_score = vote_multiplier * (votes - min_votes) / (max_votes - min_votes)\<close> and
  \<open>score = (issue_score + vote_score) / 2\<close>, its other fields unchanged; with both
  multipliers 1 the three scores lie in the interval from 0 to 1.
\<close>

theorem scoring_formula:
  assumes "py_min (map votes cs) = Inr min_votes" and "py_max (map votes cs) = Inr max_votes"
    and "py_min (map issues cs) = Inr min_issues" and "py_max (map issues cs) = Inr max_issues"
    and "min_votes < max_votes" and "min_issues < max_issues"
  shows "\<exists>cs'. scoring vote_multiplier issue_multiplier cs = Inr cs' \<and> length cs' = length cs \<and>
          (\<forall>k < length cs.
             issue_score (cs' ! k) = Some (issue_multiplier * of_int (issues (cs ! k) - min_issues)
                                              / of_int (max_issues - min_issues)) \<and>
             vote_score (cs' ! k) = Some (vote_multiplier * of_int (votes (cs ! k) - min_votes)
                                              / of_int (max_votes - min_votes)) \<and>
             score (cs' ! k) = Some ((the (issue_score (cs' ! k)) + the (vote_score (cs' ! k))) / 2) \<and>
             index (cs' ! k) = index (cs ! k) \<and> features (cs' ! k) = features (cs ! k) \<and>
             votes (cs' ! k) = votes (cs ! k) \<and> issues (cs' ! k) = issues (cs ! k) \<and>
             (vote_multiplier = 1 \<and> issue_multiplier = 1 \<longrightarrow>
                in_unit_interval (issue_score (cs' ! k)) \<and> in_unit_interval (vote_score (cs' ! k)) \<and>
                in_unit_interval (score (cs' ! k))))"
proof -
  let ?g = "scored vote_multiplier issue_multiplier min_votes max_votes min_issues max_issues"
  have run: "scoring vote_multiplier issue_multiplier cs = Inr (map ?g cs)"
    using assms by (intro scoring_ok) simp_all
  have each: "issue_score (?g c) = Some (issue_multiplier * of_int (issues c - min_issues)
                                              / of_int (max_issues - min_issues)) \<and>
             vote_score (?g c) = Some (vote_multiplier * of_int (votes c - min_votes)
                                              / of_int (max_votes - min_votes)) \<and>
             score (?g c) = Some ((the (issue_score (?g c)) + the (vote_score (?g c))) / 2) \<and>
             index (?g c) = index c \<and> features (?g c) = features c \<and>
             votes (?g c) = votes c \<and> issues (?g c) = issues c" for c
    by (simp add: scored_def add.commute)
  have bounds: "in_unit_interval (issue_score (?g c)) \<and> in_unit_interval (vote_score (?g c)) \<and>
                in_unit_interval (score (?g c))"
    if "c \<in> set cs" "vote_multiplier = 1" "issue_multiplier = 1" for c
  proof -
    let ?v = "of_int (votes c - min_votes) / of_int (max_votes - min_votes) :: rat"
    let ?i = "of_int (issues c - min_issues) / of_int (max_issues - min_issues) :: rat"
    have v: "0 \<le> ?v" "?v \<le> 1"
      using unit_fraction [of min_votes "votes c" max_votes]
        py_min_le [OF assms(1) that(1)] py_max_ge [OF assms(2) that(1)] assms(5) by simp_all
    have i: "0 \<le> ?i" "?i \<le> 1"
      using unit_fraction [of min_issues "issues c" max_issues]
        py_min_le [OF assms(3) that(1)] py_max_ge [OF assms(4) that(1)] assms(6) by simp_all
    from v i have "0 \<le> (?v + ?i) / 2" "(?v + ?i) / 2 \<le> 1" by simp_all
    with v i that(2,3) show ?thesis by (simp add: scored_def)
  qed
  show ?thesis
    using run each bounds by (intro exI [of _ "map ?g cs"]) (simp add: nth_mem)
qed

theorem scoring_formula_witness:
  "\<exists>cs'. scoring 1 1
      [\<lparr>index = 0, features = [], votes = 8, issues = 2,
         vote_score = None, issue_score = None, score = None\<rparr>,
       \<lparr>index = 1, features = [], votes = 3, issues = 1,
         vote_score = None, issue_score = None, score = None\<rparr>,
       \<lparr>index = 2, features = [], votes = 0, issues = 5,
         vote_score = None, issue_score = None, score = None\<rparr>] = Inr cs'
     \<and> vote_score (cs' ! 1) = Some (3 / 8) \<and> issue_score (cs' ! 0) = Some (1 / 4)
     \<and> score (cs' ! 0) = Some (5 / 8) \<and> in_unit_interval (score (cs' ! 2))"
  using scoring_formula [of
      "[\<lparr>index = 0, features = [], votes = 8, issues = 2,
         vote_score = None, issue_score = None, score = None\<rparr>,
       \<lparr>index = 1, features = [], votes = 3, issues = 1,
         vote_score = None, issue_score = None, score = None\<rparr>,
       \<lparr>index = 2, features = [], votes = 0, issues = 5,
         vote_score = None, issue_score = None, score = None\<rparr>]" 0 8 1 5 1 1]
  by (auto simp: All_less_Suc numeral_2_eq_2)


section \<open>Properties of the aggregation pass\<close>

lemma py_index_Some: "py_index n q = Some c \<Longrightarrow> c < n"
  by (auto simp: py_index_def split: if_splits)

lemma list_index_first:
  "x \<in> set xs \<Longrightarrow>
   \<exists>k. list_index xs x = Some k \<and> k < length xs \<and> xs ! k = x \<and> (\<forall>m < k. xs ! m \<noteq> x)"
proof (induction xs)
  case Nil
  then show ?case by simp
next
  case (Cons y ys)
  show ?case
  proof (cases "y = x")
    case True
    then show ?thesis by simp
  next
    case False
    with Cons obtain k where k: "list_index ys x = Some k" "k < length ys" "ys ! k = x"
      "\<forall>m < k. ys ! m \<noteq> x" by auto
    have "\<forall>m < Suc k. (y # ys) ! m \<noteq> x"
      using False k(4) by (auto simp: nth_Cons split: nat.splits)
    with False k show ?thesis by simp
  qed
qed

lemma two_updates_bump:
  assumes "c < length cls"
  shows "(cls[c := (cls ! c)\<lparr>votes := votes (cls ! c) + v\<rparr>])
           [c := ((cls[c := (cls ! c)\<lparr>votes := votes (cls ! c) + v\<rparr>]) ! c)
                   \<lparr>issues := issues ((cls[c := (cls ! c)\<lparr>votes := votes (cls ! c) + v\<rparr>]) ! c) + 1\<rparr>]
         = bump c v cls"
  using assms by (simp add: bump_def)

lemma predicted_fixed:
  "prediction i = Some (predict (issue_description i)) \<Longrightarrow> predicted predict i = i"
  by (simp add: predicted_def)

lemma aggregate_step_tally:
  assumes j: "j < length iss"
    and seen: "\<forall>k < j. prediction (iss ! k) = Some (predict (issue_description (iss ! k)))"
  shows "aggregate_step predict j (iss, cls) =
           (case py_index (length cls) (predict (issue_description (iss ! j))) of
              None \<Rightarrow> Inl IndexError
            | Some c \<Rightarrow> Inr (iss[j := predicted predict (iss ! j)],
                             bump c (issue_votes (iss ! j)) cls))"
proof -
  let ?p = "predict (issue_description (iss ! j))"
  from j have "iss ! j \<in> set iss" by simp
  from list_index_first [OF this] obtain k where k: "list_index iss (iss ! j) = Some k"
    "k < length iss" "iss ! k = iss ! j" "\<forall>m < k. iss ! m \<noteq> iss ! j" by blast
  have "k \<le> j" using k(4) by (rule_tac ccontr) (auto simp: not_le)
  have upd: "iss[k := (iss ! k)\<lparr>prediction := Some ?p\<rparr>] = iss[j := predicted predict (iss ! j)]"
  proof (cases "k = j")
    case True
    then show ?thesis by (simp add: predicted_def)
  next
    case False
    with \<open>k \<le> j\<close> have "k < j" by simp
    with seen k(3) have "prediction (iss ! j) = Some ?p" by auto
    then have "predicted predict (iss ! j) = iss ! j" by (rule predicted_fixed)
    moreover from this k(3) have "(iss ! k)\<lparr>prediction := Some ?p\<rparr> = iss ! k"
      by (simp add: predicted_def)
    ultimately show ?thesis by simp
  qed
  have cur: "(iss[j := predicted predict (iss ! j)]) ! j = predicted predict (iss ! j)"
    using j by simp
  show ?thesis
    using k(1) py_index_Some [of "length cls" ?p]
    by (simp add: upd cur Let_def two_updates_bump del: list_update_id split: option.splits)
      (simp add: predicted_def bump_def)
qed


lemma aggregate_loop_tally:
  assumes "j \<le> length iss"
    and "\<forall>k < j. prediction (iss ! k) = Some (predict (issue_description (iss ! k)))"
  shows "aggregate_loop predict [j..<length iss] (iss, cls) =
           (case tally predict (drop j iss) cls of
              Inl e \<Rightarrow> Inl e
            | Inr cls' \<Rightarrow> Inr (take j iss @ map (predicted predict) (drop j iss), cls'))"
  using assms
proof (induction "length iss - j" arbitrary: j iss cls)
  case 0
  then show ?case by simp
next
  case (Suc n)
  then have j: "j < length iss" by simp
  let ?i = "iss ! j"
  let ?iss = "iss[j := predicted predict ?i]"
  have split: "drop j iss = ?i # drop (Suc j) iss"
    using j by (simp add: Cons_nth_drop_Suc)
  have step: "aggregate_step predict j (iss, cls) =
           (case py_index (length cls) (predict (issue_description ?i)) of
              None \<Rightarrow> Inl IndexError
            | Some c \<Rightarrow> Inr (?iss, bump c (issue_votes ?i) cls))"
    using j Suc.prems(2) by (rule aggregate_step_tally)
  show ?case
  proof (cases "py_index (length cls) (predict (issue_description ?i))")
    case None
    with step split j show ?thesis by (simp add: upt_conv_Cons)
  next
    case (Some c)
    have seen: "\<forall>k < Suc j. prediction (?iss ! k) = Some (predict (issue_description (?iss ! k)))"
      using Suc.prems(2) j by (auto simp: less_Suc_eq nth_list_update predicted_def)
    have "n = length ?iss - Suc j" using Suc.hyps(2) by simp
    moreover have "Suc j \<le> length ?iss" using j by simp
    ultimately have IH: "aggregate_loop predict [Suc j..<length ?iss] (?iss, bump c (issue_votes ?i) cls) =
           (case tally predict (drop (Suc j) ?iss) (bump c (issue_votes ?i) cls) of
              Inl e \<Rightarrow> Inl e
            | Inr cls' \<Rightarrow> Inr (take (Suc j) ?iss @ map (predicted predict) (drop (Suc j) ?iss), cls'))"
      using seen by (rule Suc.hyps(1))
    have tk: "take (Suc j) ?iss = take j iss @ [predicted predict ?i]"
      using j by (simp add: take_Suc_conv_app_nth)
    have dr: "drop (Suc j) ?iss = drop (Suc j) iss" by simp
    have "aggregate_loop predict [j..<length iss] (iss, cls) =
          aggregate_loop predict [Suc j..<length ?iss] (?iss, bump c (issue_votes ?i) cls)"
      using j step Some by (simp add: upt_conv_Cons)
    also note IH
    finally show ?thesis
      using Some by (simp add: split tk dr cong: sum.case_cong)
  qed
qed

lemma aggregate_tally:
  "aggregate predict iss cls =
     (case tally predict iss (reset_clusters cls) of
        Inl e \<Rightarrow> Inl e
      | Inr cls' \<Rightarrow> Inr (map (predicted predict) iss, cls'))"
  using aggregate_loop_tally [of 0 iss predict "reset_clusters cls"]
  by (simp add: aggregate_def cong: sum.case_cong)

lemma tally_predicted: "tally predict (map (predicted predict) iss) cls = tally predict iss cls"
  by (induction iss arbitrary: cls) (simp_all add: predicted_def cong: option.case_cong)

lemma predicted_idem: "predicted predict (predicted predict i) = predicted predict i"
  by (simp add: predicted_def)

lemma length_bump [simp]: "length (bump c v cls) = length cls"
  by (simp add: bump_def)

lemma reset_bump: "reset_clusters (bump c v cls) = reset_clusters cls"
proof (cases "c < length cls")
  case True
  then show ?thesis
    by (simp add: reset_clusters_def bump_def map_update list_eq_iff_nth_eq nth_list_update)
next
  case False
  then show ?thesis by (simp add: bump_def list_update_beyond)
qed

lemma reset_tally: "tally predict iss cls = Inr cls' \<Longrightarrow> reset_clusters cls' = reset_clusters cls"
  by (induction iss arbitrary: cls) (auto simp: reset_bump split: option.splits)

lemma reset_reset: "reset_clusters (reset_clusters cls) = reset_clusters cls"
  by (simp add: reset_clusters_def)

lemma length_tally: "tally predict iss cls = Inr cls' \<Longrightarrow> length cls' = length cls"
  by (induction iss arbitrary: cls) (auto split: option.splits)

lemma index_bump: "map index (bump c v cls) = map index cls"
  by (cases "c < length cls")
    (simp_all add: bump_def map_update list_eq_iff_nth_eq nth_list_update list_update_beyond)

lemma index_tally: "tally predict iss cls = Inr cls' \<Longrightarrow> map index cls' = map index cls"
  by (induction iss arbitrary: cls) (auto simp: index_bump split: option.splits)

lemma index_reset: "map index (reset_clusters cls) = map index cls"
  by (simp add: reset_clusters_def)

lemma tally_total:
  "\<forall>i \<in> set iss. py_index (length cls) (predict (issue_description i)) \<noteq> None \<Longrightarrow>
   \<exists>cls'. tally predict iss cls = Inr cls'"
  by (induction iss arbitrary: cls) (auto split: option.splits)

lemma sum_list_update_int:
  fixes xs :: "int list"
  shows "k < length xs \<Longrightarrow> sum_list (xs[k := x]) = sum_list xs + x - xs ! k"
  by (induction xs arbitrary: k) (auto split: nat.splits)

lemma sum_issues_bump:
  "c < length cls \<Longrightarrow> sum_list (map issues (bump c v cls)) = sum_list (map issues cls) + 1"
  by (simp add: bump_def map_update sum_list_update_int)

lemma sum_votes_bump:
  "c < length cls \<Longrightarrow> sum_list (map votes (bump c v cls)) = sum_list (map votes cls) + v"
  by (simp add: bump_def map_update sum_list_update_int)

lemma sum_tally:
  "tally predict iss cls = Inr cls' \<Longrightarrow>
   sum_list (map issues cls') = sum_list (map issues cls) + int (length iss) \<and>
   sum_list (map votes cls') = sum_list (map votes cls) + sum_list (map issue_votes iss)"
proof (induction iss arbitrary: cls)
  case Nil
  then show ?case by simp
next
  case (Cons i iss)
  then obtain c where c: "py_index (length cls) (predict (issue_description i)) = Some c"
    and rest: "tally predict iss (bump c (issue_votes i) cls) = Inr cls'"
    by (auto split: option.splits)
  from c have "c < length cls" by (rule py_index_Some)
  with Cons.IH [OF rest] show ?case
    by (simp add: sum_issues_bump sum_votes_bump)
qed

lemma sum_reset:
  "sum_list (map issues (reset_clusters cls)) = 0" "sum_list (map votes (reset_clusters cls)) = 0"
  by (simp_all add: reset_clusters_def comp_def)

lemma aggregate_Inr:
  assumes "aggregate predict iss cls = Inr (iss', cls')"
  shows "iss' = map (predicted predict) iss" and "tally predict iss (reset_clusters cls) = Inr cls'"
  using assms by (auto simp: aggregate_tally split: sum.splits)

lemma aggregate_completes:
  assumes "\<forall>i \<in> set iss. py_index (length cls) (predict (issue_description i)) \<noteq> None"
  shows "\<exists>cls'. aggregate predict iss cls = Inr (map (predicted predict) iss, cls')"
proof -
  have "length (reset_clusters cls) = length cls" by (simp add: reset_clusters_def)
  with assms tally_total [of iss "reset_clusters cls" predict]
  obtain cls' where "tally predict iss (reset_clusters cls) = Inr cls'" by auto
  then show ?thesis by (simp add: aggregate_tally)
qed

lemma tally_error: "tally predict iss cls = Inl e \<Longrightarrow> e = IndexError"
  by (induction iss arbitrary: cls) (auto split: option.splits)

text \<open>
  The only exception of the aggregation pass is the IndexError of a prediction outside
  the cluster list: the \<^verbatim>\<open>'prediction'\<close> key is never missing when it is read.
\<close>

lemma aggregate_error: "aggregate predict iss cls = Inl e \<Longrightarrow> e = IndexError"
  by (auto simp: aggregate_tally split: sum.splits dest: tally_error)

lemma aggregate_index:
  "aggregate predict iss cls = Inr (iss', cls') \<Longrightarrow> map index cls' = map index cls"
  by (drule aggregate_Inr(2)) (simp add: index_tally index_reset)

lemma demo_aggregate:
  "aggregate demo_predict demo_issues demo_used =
     Inr (map (predicted demo_predict) demo_issues, demo_aggregated)"
  by (simp add: aggregate_tally reset_clusters_def demo_issues_def demo_predict_def
      py_index_def bump_def demo_used_def demo_aggregated_def)

text \<open>
  Claim C4: a second aggregation pass over the issues and clusters that a first pass
  left behind returns the very same state, so every cluster keeps its issue count and
  its vote sum. The counters are reset before the loop and nothing accumulates: the
  pass gives the same result from any cluster list that differs from \<open>clusters\<close> only in
  its counters.
\<close>

theorem aggregate_twice:
  assumes "aggregate predict iss clusters = Inr (iss1, clusters1)"
  shows "aggregate predict iss1 clusters1 = Inr (iss1, clusters1)
       \<and> (\<forall>other. reset_clusters other = reset_clusters clusters \<longrightarrow>
             aggregate predict iss other = Inr (iss1, clusters1))"
proof -
  note first = aggregate_Inr [OF assms]
  have "reset_clusters clusters1 = reset_clusters clusters"
    using reset_tally [OF first(2)] by (simp add: reset_reset)
  then have "tally predict iss1 (reset_clusters clusters1) = Inr clusters1"
    using first by (simp add: tally_predicted)
  moreover have "map (predicted predict) iss1 = iss1"
    using first(1) by (simp add: predicted_idem)
  ultimately have "aggregate predict iss1 clusters1 = Inr (iss1, clusters1)"
    by (simp add: aggregate_tally)
  moreover have "aggregate predict iss other = Inr (iss1, clusters1)"
    if "reset_clusters other = reset_clusters clusters" for other
    using that first by (simp add: aggregate_tally)
  ultimately show ?thesis by blast
qed

theorem aggregate_twice_witness:
  "aggregate demo_predict (map (predicted demo_predict) demo_issues) demo_aggregated
     = Inr (map (predicted demo_predict) demo_issues, demo_aggregated)
   \<and> aggregate demo_predict demo_issues demo_clusters
     = Inr (map (predicted demo_predict) demo_issues, demo_aggregated)"
proof -
  have "reset_clusters demo_clusters = reset_clusters demo_used"
    by (simp add: reset_clusters_def demo_clusters_def demo_used_def)
  with aggregate_twice [OF demo_aggregate] show ?thesis by blast
qed

text \<open>
  Claim C10: when every prediction names a position of the cluster list, the aggregation
  pass completes, and after it the issue counts of the clusters add up to the number of
  issues processed and their vote sums add up to the votes of those issues: every issue
  and its votes are counted exactly once.
\<close>

theorem aggregate_counts_each_issue_once:
  assumes "\<forall>i \<in> set iss. py_index (length clusters) (predict (issue_description i)) \<noteq> None"
  shows "\<exists>iss' clusters'.
           aggregate predict iss clusters = Inr (iss', clusters')
         \<and> sum_list (map issues clusters') = int (length iss)
         \<and> sum_list (map votes clusters') = sum_list (map issue_votes iss)
         \<and> length iss' = length iss \<and> map issue_votes iss' = map issue_votes iss"
proof -
  from aggregate_completes [OF assms] obtain clusters' where
    done_pass: "aggregate predict iss clusters = Inr (map (predicted predict) iss, clusters')" ..
  note run = aggregate_Inr [OF done_pass]
  from sum_tally [OF run(2)] have
    "sum_list (map issues clusters') = int (length iss)"
    "sum_list (map votes clusters') = sum_list (map issue_votes iss)"
    by (simp_all add: sum_reset)
  moreover have "map issue_votes (map (predicted predict) iss) = map issue_votes iss"
    by (simp add: predicted_def comp_def)
  ultimately show ?thesis
    using done_pass by (intro exI conjI) (assumption, simp_all)
qed

theorem aggregate_counts_each_issue_once_witness:
  "\<exists>iss' clusters'.
     aggregate demo_predict demo_issues demo_used = Inr (iss', clusters')
     \<and> sum_list (map issues clusters') = 4
     \<and> sum_list (map votes clusters') = 8"
proof -
  have valid: "\<forall>i \<in> set demo_issues.
      py_index (length demo_used) (demo_predict (issue_description i)) \<noteq> None"
    by (simp add: demo_issues_def demo_used_def demo_predict_def py_index_def)
  from aggregate_counts_each_issue_once [OF valid] obtain iss' clusters' where
    run: "aggregate demo_predict demo_issues demo_used = Inr (iss', clusters')"
    and counts: "sum_list (map issues clusters') = int (length demo_issues)"
      "sum_list (map votes clusters') = sum_list (map issue_votes demo_issues)"
    by blast
  have "int (length demo_issues) = 4" "sum_list (map issue_votes demo_issues) = 8"
    by (simp_all add: demo_issues_def)
  with run counts show ?thesis by auto
qed

text \<open>
  Conversely, a pass that returns has counted: whenever the aggregation pass completes,
  the sums are those of the issues.
\<close>

lemma aggregate_Inr_counts:
  assumes "aggregate predict iss clusters = Inr (iss', clusters')"
  shows "sum_list (map issues clusters') = int (length iss)"
    and "sum_list (map votes clusters') = sum_list (map issue_votes iss)"
  using sum_tally [OF aggregate_Inr(2) [OF assms]] by (simp_all add: sum_reset)

section \<open>The range of the predicted cluster index\<close>

lemma nearest_less: "ds \<noteq> [] \<Longrightarrow> nearest ds < length ds"
proof (induction ds)
  case Nil
  then show ?case by simp
next
  case (Cons d ds)
  show ?case
  proof (cases "\<forall>e \<in> set ds. d \<le> e")
    case True
    then show ?thesis by simp
  next
    case False
    then have "ds \<noteq> []" by auto
    with Cons.IH False show ?thesis by simp
  qed
qed

lemma nearest_least: "e \<in> set ds \<Longrightarrow> ds ! nearest ds \<le> e"
proof (induction ds arbitrary: e)
  case Nil
  then show ?case by simp
next
  case (Cons d ds)
  show ?case
  proof (cases "\<forall>e \<in> set ds. d \<le> e")
    case True
    with Cons.prems show ?thesis by auto
  next
    case False
    then obtain e' where e': "e' \<in> set ds" "e' < d" by (auto simp: not_le)
    from Cons.IH [OF e'(1)] e'(2) have "ds ! nearest ds < d" by simp
    with Cons False show ?thesis by auto
  qed
qed

lemma nearest_lowest: "k < nearest ds \<Longrightarrow> ds ! nearest ds < ds ! k"
proof (induction ds arbitrary: k)
  case Nil
  then show ?case by simp
next
  case (Cons d ds)
  from Cons.prems have notmin: "\<not> (\<forall>e \<in> set ds. d \<le> e)"
    by (auto split: if_splits)
  then obtain e' where e': "e' \<in> set ds" "e' < d" by (auto simp: not_le)
  with nearest_least [OF e'(1)] have below: "ds ! nearest ds < d" by simp
  have step: "nearest (d # ds) = Suc (nearest ds)"
    using notmin by (simp only: nearest.simps if_False)
  show ?case
  proof (cases k)
    case 0
    with below show ?thesis by (simp add: step del: nearest.simps)
  next
    case (Suc m)
    with Cons.prems have "m < nearest ds" by (simp add: step del: nearest.simps)
    from Cons.IH [OF this] Suc show ?thesis by (simp add: step del: nearest.simps)
  qed
qed

lemma kmeans_predict_range:
  assumes "centroids \<noteq> []"
  shows "0 \<le> kmeans_predict centroids row" and "kmeans_predict centroids row < int (length centroids)"
  using nearest_less [of "map (squared_distance row) centroids"] assms
  by (simp_all add: kmeans_predict_def)

lemma kmeans_predict_nearest:
  assumes "c \<in> set centroids"
  shows "squared_distance row (centroids ! nat (kmeans_predict centroids row)) \<le> squared_distance row c"
proof -
  let ?ds = "map (squared_distance row) centroids"
  from assms have ne: "?ds \<noteq> []" by auto
  from assms have "squared_distance row c \<in> set ?ds" by simp
  from nearest_least [OF this] nearest_less [OF ne] show ?thesis
    by (simp add: kmeans_predict_def)
qed

text \<open>
  Claim C5: with a model of \<open>K \<ge> 1\<close> centroids and the \<open>K\<close> clusters built for it, the
  aggregation pass completes whatever the vectorizer \<open>transform\<close> returns, and the
  index it records for every issue lies in \<open>[0, K)\<close>.
\<close>

theorem predicted_index_in_range:
  assumes "centroids \<noteq> []" and "length clusters = length centroids"
  shows "\<exists>iss' clusters'.
           aggregate (\<lambda>d. kmeans_predict centroids (transform d)) iss clusters = Inr (iss', clusters')
         \<and> length iss' = length iss
         \<and> (\<forall>i \<in> set iss'. \<exists>p. prediction i = Some p \<and> 0 \<le> p \<and> p < int (length centroids))"
proof -
  let ?predict = "\<lambda>d. kmeans_predict centroids (transform d)"
  have range: "0 \<le> ?predict d \<and> ?predict d < int (length centroids)" for d
    using kmeans_predict_range [OF assms(1)] by simp
  then have "\<forall>i \<in> set iss. py_index (length clusters) (?predict (issue_description i)) \<noteq> None"
    using assms(2) by (simp add: py_index_def)
  from aggregate_completes [OF this] obtain clusters' where
    "aggregate ?predict iss clusters = Inr (map (predicted ?predict) iss, clusters')" ..
  moreover have "\<forall>i \<in> set (map (predicted ?predict) iss).
      \<exists>p. prediction i = Some p \<and> 0 \<le> p \<and> p < int (length centroids)"
    using range by (auto simp: predicted_def)
  ultimately show ?thesis by (intro exI conjI) (assumption, simp, assumption)
qed

theorem predicted_index_in_range_witness:
  "\<exists>iss' clusters'.
     aggregate (\<lambda>d. kmeans_predict demo_centers (demo_transform d)) demo_issues demo_clusters
       = Inr (iss', clusters')
     \<and> length iss' = length demo_issues
     \<and> (\<forall>i \<in> set iss'. \<exists>p. prediction i = Some p \<and> 0 \<le> p \<and> p < int (length demo_centers))"
proof -
  have "demo_centers \<noteq> []"
    by (simp add: demo_centers_def)
  moreover have "length demo_clusters = length demo_centers"
    by (simp add: demo_centers_def demo_clusters_def)
  ultimately show ?thesis
    by (rule predicted_index_in_range)
qed

section \<open>Properties of the ranking\<close>

lemma insort_key_tie_order:
  fixes f :: "'a \<Rightarrow> rat" and g :: "'a \<Rightarrow> int"
  assumes "sorted_wrt (\<lambda>a b. f a < f b \<or> (f a = f b \<and> g b < g a)) ys"
    and "\<forall>y \<in> set ys. g y < g x"
  shows "sorted_wrt (\<lambda>a b. f a < f b \<or> (f a = f b \<and> g b < g a)) (insort_key f x ys)"
  using assms
proof (induction ys)
  case Nil
  then show ?case by simp
next
  case (Cons y ys)
  show ?case
  proof (cases "f x \<le> f y")
    case True
    have "f x < f z \<or> (f x = f z \<and> g z < g x)" if "z \<in> set (y # ys)" for z
    proof -
      have "f y \<le> f z" using that Cons.prems(1) by auto
      with True have "f x \<le> f z" by simp
      moreover have "g z < g x" using that Cons.prems(2) by auto
      ultimately show ?thesis by auto
    qed
    with True Cons.prems(1) show ?thesis by simp
  next
    case False
    with Cons show ?thesis by (auto simp: set_insort_key)
  qed
qed

lemma sort_key_tie_order:
  fixes f :: "'a \<Rightarrow> rat" and g :: "'a \<Rightarrow> int"
  assumes "sorted_wrt (\<lambda>a b. g b < g a) zs"
  shows "sorted_wrt (\<lambda>a b. f a < f b \<or> (f a = f b \<and> g b < g a)) (sort_key f zs)"
  using assms
proof (induction zs)
  case Nil
  then show ?case by simp
next
  case (Cons z zs)
  then show ?case by (simp add: insort_key_tie_order)
qed

text \<open>A descending stable sort of a list whose tie-breaker \<open>g\<close> ascends along the list.\<close>

lemma reverse_sort_order:
  fixes f :: "'a \<Rightarrow> rat" and g :: "'a \<Rightarrow> int"
  assumes "sorted_wrt (\<lambda>a b. g a < g b) xs"
  shows "sorted_wrt (\<lambda>a b. f b < f a \<or> (f a = f b \<and> g a < g b)) (rev (sort_key f (rev xs)))"
proof -
  have "sorted_wrt (\<lambda>a b. g b < g a) (rev xs)"
    using assms by (simp add: sorted_wrt_rev)
  from sort_key_tie_order [OF this, of f]
  have "sorted_wrt (\<lambda>a b. f a < f b \<or> (f a = f b \<and> g b < g a)) (sort_key f (rev xs))" .
  then show ?thesis
    by (simp add: sorted_wrt_rev eq_commute [of "f _" "f _"] cong: conj_cong)
qed

lemma append_clusters_index:
  "append_clusters feats positions = Inr cs \<Longrightarrow> map index cs = map int positions"
  by (induction positions arbitrary: cs) (auto split: sum.splits)

lemma make_clusters_index:
  "make_clusters argsort terms cluster_centers number_of_clusters = Inr cs \<Longrightarrow>
   map index cs = map int [0..<nat number_of_clusters]"
  unfolding make_clusters_def by (rule append_clusters_index)

lemma scoring_Inr:
  assumes "scoring vm im cs = Inr cs'"
  shows "\<exists>mnv mxv mni mxi. cs' = map (scored vm im mnv mxv mni mxi) cs"
proof -
  from assms obtain mnv mxv mni mxi where ext:
    "py_min (map votes cs) = Inr mnv" "py_max (map votes cs) = Inr mxv"
    "py_min (map issues cs) = Inr mni" "py_max (map issues cs) = Inr mxi"
    by (auto simp: scoring_def split: sum.splits)
  have "mxv \<noteq> mnv \<and> mxi \<noteq> mni"
    using scoring_zero_range [OF ext, of vm im] assms by auto
  with scoring_ok [OF ext, of vm im] assms show ?thesis by auto
qed

lemma outranksI:
  "score a = Some x \<Longrightarrow> score b = Some y \<Longrightarrow> y < x \<or> (x = y \<and> index a < index b) \<Longrightarrow>
   outranks a b"
  by (simp add: outranks_def)

lemma outranks_asym: "outranks a b \<Longrightarrow> \<not> outranks b a"
  by (auto simp: outranks_def split: option.splits)

lemma ascending_index:
  "map index cs = map int [0..<n] \<Longrightarrow> sorted_wrt (<) (map index cs)"
  by (simp add: sorted_wrt_map)

text \<open>
  Cells 11 and 15 leave the clusters in ascending order of index; cell 19 only adds the
  three score keys to each of them.
\<close>

lemma clusters_ascending:
  assumes "make_clusters argsort terms cluster_centers number_of_clusters = Inr clusters0"
    and "aggregate predict iss clusters0 = Inr (iss', clusters)"
  shows "sorted_wrt (<) (map index clusters)" and "length clusters = nat number_of_clusters"
proof -
  have idx: "map index clusters = map int [0..<nat number_of_clusters]"
    using make_clusters_index [OF assms(1)] aggregate_index [OF assms(2)] by simp
  then show "sorted_wrt (<) (map index clusters)" by (rule ascending_index)
  from arg_cong [OF idx, of length] show "length clusters = nat number_of_clusters" by simp
qed

text \<open>
  Claim C3: for a cluster list in ascending order of index, as cells 11 and 15 leave it,
  in which every cluster holds a score, the sort returns all the clusters, each once, in
  an order where an earlier entry has the larger score or, at equal score, the smaller
  index; no two entries are tied. The scores are the values stored in the clusters,
  whatever arithmetic produced them: a float is a rational number and the sort compares
  floats as such, so the statement does not depend on how cell 19 rounds.
\<close>

theorem ranking_total_order:
  assumes "sorted_wrt (<) (map index clusters)"
    and "\<forall>k \<in> set clusters. score k \<noteq> None"
  shows "\<exists>ranked. clusters_by_score clusters = Inr ranked
          \<and> mset ranked = mset clusters
          \<and> length ranked = length clusters
          \<and> (\<forall>i j. i < j \<and> j < length ranked \<longrightarrow>
                outranks (ranked ! i) (ranked ! j) \<and> \<not> outranks (ranked ! j) (ranked ! i))"
proof -
  let ?f = "\<lambda>k. the (score k)"
  let ?ranked = "rev (sort_key ?f (rev clusters))"
  have some: "score k = Some (?f k)" if "k \<in> set clusters" for k
    using that assms(2) by auto
  have run: "clusters_by_score clusters = Inr ?ranked"
    using assms(2) by (simp add: clusters_by_score_def)
  have "sorted_wrt (\<lambda>a b. index a < index b) clusters"
    using assms(1) by (simp add: sorted_wrt_map)
  from reverse_sort_order [OF this, of ?f]
  have ord: "sorted_wrt (\<lambda>a b. ?f b < ?f a \<or> (?f a = ?f b \<and> index a < index b)) ?ranked" .
  have pair: "outranks (?ranked ! i) (?ranked ! j) \<and> \<not> outranks (?ranked ! j) (?ranked ! i)"
    if "i < j" "j < length ?ranked" for i j
  proof -
    let ?a = "?ranked ! i" and ?b = "?ranked ! j"
    from that have "?a \<in> set ?ranked" "?b \<in> set ?ranked"
      by (simp_all del: set_rev set_sort)
    then have "score ?a = Some (?f ?a)" "score ?b = Some (?f ?b)"
      using some by simp_all
    moreover from ord that have "?f ?b < ?f ?a \<or> (?f ?a = ?f ?b \<and> index ?a < index ?b)"
      by (simp add: sorted_wrt_iff_nth_less)
    ultimately have "outranks ?a ?b"
      by (rule outranksI)
    then show ?thesis by (simp add: outranks_asym)
  qed
  from run pair show ?thesis
    by (intro exI [of _ ?ranked]) simp
qed

lemma demo_make_clusters:
  "make_clusters argsort_stable demo_terms demo_centers 3 = Inr demo_clusters"
  by (simp add: make_clusters_def cluster_features_def order_centroids_def argsort_stable_def
      demo_terms_def demo_centers_def demo_clusters_def upt_rec numeral_3_eq_3)

lemma demo_aggregate_fresh:
  "aggregate demo_predict demo_issues demo_clusters =
     Inr (map (predicted demo_predict) demo_issues, demo_aggregated)"
  by (simp add: aggregate_tally reset_clusters_def demo_issues_def demo_predict_def
      py_index_def bump_def demo_clusters_def demo_aggregated_def)

lemma demo_scoring: "scoring 1 1 demo_aggregated = Inr demo_scored"
  by (simp add: scoring_def score_cluster_def py_truediv_def demo_aggregated_def demo_scored_def)

lemma demo_ranking: "map index (projr (clusters_by_score demo_scored)) = [1, 0, 2]"
  by (simp add: clusters_by_score_def demo_scored_def)

lemma demo_stored_ranking: "map index (projr (clusters_by_score demo_stored)) = [3, 0, 1, 2]"
  by (simp add: clusters_by_score_def demo_stored_def)

theorem ranking_total_order_witness:
  "\<exists>ranked. clusters_by_score demo_stored = Inr ranked
     \<and> mset ranked = mset demo_stored
     \<and> length ranked = length demo_stored
     \<and> (\<forall>i j. i < j \<and> j < length ranked \<longrightarrow>
           outranks (ranked ! i) (ranked ! j) \<and> \<not> outranks (ranked ! j) (ranked ! i))"
proof -
  have "sorted_wrt (<) (map index demo_stored)"
    by (simp add: demo_stored_def)
  moreover have "\<forall>k \<in> set demo_stored. score k \<noteq> None"
    by (simp add: demo_stored_def del: not_None_eq)
  ultimately show ?thesis
    by (rule ranking_total_order)
qed

section \<open>Properties of the cluster labels\<close>

lemma get_terms_ok:
  "\<forall>x \<in> set xs. x < length terms \<Longrightarrow> get_terms terms xs = Inr (map ((!) terms) xs)"
  by (induction xs) simp_all

lemma argsort_stable_contract:
  "mset (argsort_stable row) = mset [0..<length row]"
  "sorted (map ((!) row) (argsort_stable row))"
  by (simp_all add: argsort_stable_def)

text \<open>
  Claim C6, as the notebook behaves. The vocabulary \<open>[''api'', ''dark'']\<close> is in lexical
  order and both terms weigh \<open>1/2\<close> in the centre. With a stable argsort the reversal
  \<^verbatim>\<open>[:, ::-1]\<close> puts the later term first: the label is \<open>[''dark'', ''api'']\<close>.
\<close>

theorem cluster_features_tie_counterexample:
  "sorted [''api'', ''dark'']
   \<and> ''api'' < ''dark''
   \<and> [1 / 2, 1 / 2] ! 0 = ([1 / 2, 1 / 2] ! 1 :: rat)
   \<and> cluster_features argsort_stable [''api'', ''dark''] [[1 / 2, 1 / 2]] 0 = Inr [''dark'', ''api'']"
  by (simp add: cluster_features_def order_centroids_def argsort_stable_def upt_rec)

text \<open>
  Claim C6, amended: for a centre as long as the vocabulary and any argsort that returns
  the positions of the centre in ascending order of weight, the label of a cluster is
  made of the terms at \<open>min 10 (length terms)\<close> distinct positions, in descending order of
  weight, and no position left out weighs more than a position taken. The order of terms
  of equal weight is left to the argsort.
\<close>

theorem cluster_features_top_weights:
  assumes "i < length cluster_centers"
    and "length (cluster_centers ! i) = length terms"
    and "mset (argsort (cluster_centers ! i)) = mset [0..<length terms]"
    and "sorted (map ((!) (cluster_centers ! i)) (argsort (cluster_centers ! i)))"
  shows "\<exists>xs. cluster_features argsort terms cluster_centers i = Inr (map ((!) terms) xs)
          \<and> length xs = min 10 (length terms)
          \<and> distinct xs
          \<and> (\<forall>x \<in> set xs. x < length terms)
          \<and> sorted_wrt (\<lambda>a b. cluster_centers ! i ! b \<le> cluster_centers ! i ! a) xs
          \<and> (\<forall>y < length terms. y \<notin> set xs \<longrightarrow>
                (\<forall>x \<in> set xs. cluster_centers ! i ! y \<le> cluster_centers ! i ! x))"
proof -
  let ?w = "cluster_centers ! i"
  let ?a = "argsort ?w"
  let ?xs = "take 10 (rev ?a)"
  have set_a: "set ?a = {0..<length terms}"
    using mset_eq_setD [OF assms(3)] by simp
  have len_a: "length ?a = length terms"
    using mset_eq_length [OF assms(3)] by simp
  have dist_a: "distinct ?a"
    using mset_eq_imp_distinct_iff [OF assms(3)] by simp
  have desc: "sorted_wrt (\<lambda>a b. ?w ! b \<le> ?w ! a) (rev ?a)"
    using assms(4) by (simp add: sorted_wrt_rev sorted_map)
  have in_range: "\<forall>x \<in> set ?xs. x < length terms"
    using set_a by (auto dest: in_set_takeD)
  have "order_centroids argsort cluster_centers ! i = rev ?a"
    using assms(1) by (simp add: order_centroids_def)
  then have run: "cluster_features argsort terms cluster_centers i = Inr (map ((!) terms) ?xs)"
    using assms(1) in_range by (simp add: cluster_features_def get_terms_ok)
  have len: "length ?xs = min 10 (length terms)"
    by (simp add: len_a min.commute)
  have dist: "distinct ?xs"
    using dist_a by (simp add: distinct_take)
  have ord: "sorted_wrt (\<lambda>a b. ?w ! b \<le> ?w ! a) ?xs"
    using desc by (rule sorted_wrt_take)
  have rest: "?w ! y \<le> ?w ! x" if "y < length terms" "y \<notin> set ?xs" "x \<in> set ?xs" for x y
  proof -
    have "set (rev ?a) = set (take 10 (rev ?a)) \<union> set (drop 10 (rev ?a))"
      by (simp only: set_append [symmetric] append_take_drop_id)
    moreover from that(1) set_a have "y \<in> set (rev ?a)" by simp
    ultimately have "y \<in> set (drop 10 (rev ?a))" using that(2) by blast
    moreover from desc have "sorted_wrt (\<lambda>a b. ?w ! b \<le> ?w ! a) (take 10 (rev ?a) @ drop 10 (rev ?a))"
      by simp
    ultimately show ?thesis
      using that(3) by (simp only: sorted_wrt_append)
  qed
  show ?thesis
    using run len dist in_range ord rest by (intro exI [of _ ?xs]) blast
qed

theorem cluster_features_top_weights_witness:
  "\<exists>xs. cluster_features argsort_stable demo_terms demo_centers 0 = Inr (map ((!) demo_terms) xs)
     \<and> length xs = min 10 (length demo_terms)
     \<and> distinct xs
     \<and> (\<forall>x \<in> set xs. x < length demo_terms)
     \<and> sorted_wrt (\<lambda>a b. demo_centers ! 0 ! b \<le> demo_centers ! 0 ! a) xs
     \<and> (\<forall>y < length demo_terms. y \<notin> set xs \<longrightarrow>
           (\<forall>x \<in> set xs. demo_centers ! 0 ! y \<le> demo_centers ! 0 ! x))"
proof -
  have len: "length (demo_centers ! 0) = length demo_terms"
    by (simp add: demo_centers_def demo_terms_def)
  have "0 < length demo_centers"
    by (simp add: demo_centers_def)
  moreover note len
  moreover have "mset (argsort_stable (demo_centers ! 0)) = mset [0..<length demo_terms]"
    using argsort_stable_contract(1) [of "demo_centers ! 0"] by (simp only: len)
  moreover have "sorted (map ((!) (demo_centers ! 0)) (argsort_stable (demo_centers ! 0)))"
    by (rule argsort_stable_contract(2))
  ultimately show ?thesis
    by (rule cluster_features_top_weights)
qed

section \<open>The example of the specification, after clustering\<close>

text \<open>
  Which issues share a cluster is decided by the vectorizer and the clustering of
  scikit-learn. For any prediction that sends the two API requests to one of the two
  clusters and the dark-mode request to the other, the cells that follow give the API
  cluster 2 issues, 8 votes and score 1, give the other cluster 1 issue, 0 votes and
  score 0, and rank the API cluster first.
\<close>

lemma example_after_clustering:
  assumes "predict ''upgrade the api please'' = a" and "predict ''please upgrade api'' = a"
    and "predict ''add a dark mode'' = b"
    and "(a = 0 \<and> b = 1) \<or> (a = 1 \<and> b = 0)"
  shows "\<exists>iss' aggregated scored_clusters ranked.
           aggregate predict example_issues example_clusters = Inr (iss', aggregated)
         \<and> scoring 1 1 aggregated = Inr scored_clusters
         \<and> clusters_by_score scored_clusters = Inr ranked
         \<and> length ranked = 2
         \<and> index (ranked ! 0) = a \<and> issues (ranked ! 0) = 2 \<and> votes (ranked ! 0) = 8
         \<and> score (ranked ! 0) = Some 1
         \<and> index (ranked ! 1) = b \<and> issues (ranked ! 1) = 1 \<and> votes (ranked ! 1) = 0
         \<and> score (ranked ! 1) = Some 0"
  using assms(4)
proof
  assume ab: "a = 0 \<and> b = 1"
  let ?agg = "[\<lparr>index = 0, features = [], votes = 8, issues = 2,
                 vote_score = None, issue_score = None, score = None\<rparr>,
               \<lparr>index = 1, features = [], votes = 0, issues = 1,
                 vote_score = None, issue_score = None, score = None\<rparr>]"
  let ?sc = "[\<lparr>index = 0, features = [], votes = 8, issues = 2,
                vote_score = Some 1, issue_score = Some 1, score = Some 1\<rparr>,
              \<lparr>index = 1, features = [], votes = 0, issues = 1,
                vote_score = Some 0, issue_score = Some 0, score = Some 0\<rparr>]"
  have "aggregate predict example_issues example_clusters
          = Inr (map (predicted predict) example_issues, ?agg)"
    using assms(1-3) ab
    by (simp add: aggregate_tally reset_clusters_def example_issues_def example_clusters_def
        py_index_def bump_def)
  moreover have "scoring 1 1 ?agg = Inr ?sc"
    by (simp add: scoring_def score_cluster_def py_truediv_def)
  moreover have "clusters_by_score ?sc = Inr ?sc"
    by (simp add: clusters_by_score_def)
  ultimately show ?thesis
    using ab by (intro exI conjI) (assumption, assumption, assumption, simp_all)
next
  assume ab: "a = 1 \<and> b = 0"
  let ?agg = "[\<lparr>index = 0, features = [], votes = 0, issues = 1,
                 vote_score = None, issue_score = None, score = None\<rparr>,
               \<lparr>index = 1, features = [], votes = 8, issues = 2,
                 vote_score = None, issue_score = None, score = None\<rparr>]"
  let ?sc = "[\<lparr>index = 0, features = [], votes = 0, issues = 1,
                vote_score = Some 0, issue_score = Some 0, score = Some 0\<rparr>,
              \<lparr>index = 1, features = [], votes = 8, issues = 2,
                vote_score = Some 1, issue_score = Some 1, score = Some 1\<rparr>]"
  have "aggregate predict example_issues example_clusters
          = Inr (map (predicted predict) example_issues, ?agg)"
    using assms(1-3) ab
    by (simp add: aggregate_tally reset_clusters_def example_issues_def example_clusters_def
        py_index_def bump_def)
  moreover have "scoring 1 1 ?agg = Inr ?sc"
    by (simp add: scoring_def score_cluster_def py_truediv_def)
  moreover have "clusters_by_score ?sc = Inr (rev ?sc)"
    by (simp add: clusters_by_score_def)
  ultimately show ?thesis
    using ab by (intro exI conjI) (assumption, assumption, assumption, simp_all)
qed

end
